theory Spec2Isabelle
  imports Main "HOL-Library.Word"
begin

section \<open>Build-time parameters of the recorder\<close>

text \<open>
  The sketch \<^verbatim>\<open>Serial_Logger.ino\<close> runs on a SAMD21 (32-bit \<^verbatim>\<open>int\<close>, 32-bit
  \<^verbatim>\<open>unsigned long\<close>). Its four counters are \<^verbatim>\<open>uint32_t\<close> and are modelled as
  \<open>32 word\<close>; a byte taken from the serial port is an \<open>8 word\<close>.
\<close>

type_synonym u32 = "32 word"
type_synonym byte = "8 word"

definition LOG_BYTE_TRIGGER :: u32 where
  "LOG_BYTE_TRIGGER = 11250"

definition LOG_TIME_TRIGGER :: u32 where
  "LOG_TIME_TRIGGER = 3000"

definition LOG_FILE_SIZE_TRIGGER :: u32 where
  "LOG_FILE_SIZE_TRIGGER = 2700000"

definition LOG_FILE_NUMBER_MAX :: u32 where
  "LOG_FILE_NUMBER_MAX = 1299"

definition LOG_FILE_PREFIX :: string where
  "LOG_FILE_PREFIX = ''Dat''"

definition LOG_FILE_SUFFIX :: string where
  "LOG_FILE_SUFFIX = ''.log''"

section \<open>File names\<close>

text \<open>
  \<^verbatim>\<open>String Str_Zeros(int x)\<close>: the padding in front of the index, chosen by three
  comparisons in the order of the source.
\<close>

definition Str_Zeros :: "int \<Rightarrow> string" where
  "Str_Zeros x =
     (if x > 999 then ''''
      else if x > 99 then ''0''
      else if x > 9 then ''00''
      else ''000'')"

text \<open>
  \<^verbatim>\<open>String(x)\<close> for an unsigned integer is the constructor of the Arduino core, which
  is not part of the sketch: it prints the value in base 10 without leading zeros.
  \<open>String_dec\<close> is that conversion.
\<close>

definition digit_char :: "nat \<Rightarrow> char" where
  "digit_char d = ''0123456789'' ! d"

fun String_dec :: "nat \<Rightarrow> string" where
  "String_dec n =
     (if n < 10 then [digit_char n] else String_dec (n div 10) @ [digit_char (n mod 10)])"

declare String_dec.simps [simp del]

text \<open>
  The macro \<^verbatim>\<open>LOG_FILE(x)\<close> pastes its argument twice: once into \<^verbatim>\<open>Str_Zeros\<close>,
  whose parameter is a signed \<^verbatim>\<open>int\<close>, and once into \<^verbatim>\<open>String\<close>. The argument is
  always a 32-bit unsigned value (or the literal 0), hence \<open>sint\<close> for the first use
  and \<open>unat\<close> for the second.
\<close>

definition LOG_FILE :: "u32 \<Rightarrow> string" where
  "LOG_FILE x = LOG_FILE_PREFIX @ Str_Zeros (sint x) @ String_dec (unat x) @ LOG_FILE_SUFFIX"

text \<open>
  The naming rule in the words of the specification: the decimal digits of the index,
  left-padded with the character 0 to four characters, between prefix and suffix.
\<close>

definition zero_padded :: "nat \<Rightarrow> string" where
  "zero_padded i = replicate (4 - length (String_dec i)) (CHR ''0'') @ String_dec i"

definition format_name :: "nat \<Rightarrow> string" where
  "format_name i = ''Dat'' @ zero_padded i @ ''.log''"

section \<open>The board, the card and the serial port\<close>

text \<open>
  Everything the sketch does to its surroundings is a call into the Arduino core or the SD
  library. A run is recorded as the list of these calls, in program order. Calls into the
  storage library carry, as their last argument, what the library reported (\<open>True\<close> for
  success); the handle a \<^verbatim>\<open>File\<close> call is made on is the name the handle was opened
  under, or \<open>None\<close> for a handle that \<^verbatim>\<open>SD.open\<close> returned as invalid. Queries
  without effect (\<^verbatim>\<open>Serial2.available\<close>, \<^verbatim>\<open>SD.exists\<close>, \<^verbatim>\<open>millis\<close>) are not
  recorded; their answers are inputs. The receive interrupt \<^verbatim>\<open>SERCOM1_Handler\<close>
  runs between these calls: it toggles two debug pins and fills the receive buffer, and
  the sketch sees it only through the bytes that \<^verbatim>\<open>Serial2.read\<close> returns.
\<close>

datatype pin = DBUG_RED_LED_PIN | DBUG_GRN_LED_PIN | DBUG_VIO_PIN | DBUG_GRN_PIN | DBUG_BLU_PIN

datatype level = LOW | HIGH

datatype event =
    PinMode_OUTPUT pin
  | DigitalWrite pin level
  | Delay nat
  | SD_begin bool
  | SD_remove string bool
  | SD_open string bool
  | File_write "string option" byte bool
  | File_flush "string option" bool
  | File_close "string option" bool
  | Serial2_begin nat
  | PinPeripheral nat
  | Serial2_read byte

text \<open>What the storage library reports for the calls made in one stretch of code.\<close>

record sd_report =
  write_ok :: bool
  flush_ok :: bool
  close_ok :: bool
  remove_ok :: bool
  open_ok :: bool

text \<open>
  The card as \<^verbatim>\<open>setup\<close> finds it: whether \<^verbatim>\<open>SD.begin\<close> succeeds, which file names
  exist, and what the library reports for the calls of \<^verbatim>\<open>setup\<close>.
\<close>

record card =
  begin_ok :: bool
  present :: "string \<Rightarrow> bool"
  boot_report :: sd_report

text \<open>
  One pass through the body of the \<^verbatim>\<open>while\<close> in \<^verbatim>\<open>loop\<close>: the byte that
  \<^verbatim>\<open>Serial2.read\<close> returns, the value of \<^verbatim>\<open>millis()\<close> in the trigger test, its value
  in the re-arming assignment (the clock may have moved in between), and the reports of
  the storage library.
\<close>

record tick =
  rx :: byte
  now_check :: u32
  now_rearm :: u32
  report :: sd_report

section \<open>Variables for the logger\<close>

record logger =
  Log_Time :: u32
  Log_Byte_Count :: u32
  Log_File_Byte_Count :: u32
  Log_File_Number :: u32
  dataFile :: "string option"

text \<open>The handle that \<^verbatim>\<open>SD.open(name, FILE_WRITE)\<close> returns.\<close>

definition SD_open_handle :: "string \<Rightarrow> bool \<Rightarrow> string option" where
  "SD_open_handle name ok = (if ok then Some name else None)"

section \<open>setup\<close>

text \<open>The first lines of \<^verbatim>\<open>setup\<close>: pin directions and initial pin states.\<close>

definition setup_pins :: "event list" where
  "setup_pins =
     [PinMode_OUTPUT DBUG_RED_LED_PIN, PinMode_OUTPUT DBUG_GRN_LED_PIN,
      PinMode_OUTPUT DBUG_VIO_PIN, PinMode_OUTPUT DBUG_GRN_PIN, PinMode_OUTPUT DBUG_BLU_PIN,
      DigitalWrite DBUG_GRN_LED_PIN HIGH, DigitalWrite DBUG_VIO_PIN HIGH,
      DigitalWrite DBUG_GRN_PIN HIGH, DigitalWrite DBUG_BLU_PIN HIGH,
      DigitalWrite DBUG_RED_LED_PIN HIGH]"

text \<open>One pass through the body of \<^verbatim>\<open>while(1)\<close>, the fail signal on both LEDs.\<close>

definition fail_signal :: "event list" where
  "fail_signal =
     [DigitalWrite DBUG_GRN_LED_PIN HIGH, DigitalWrite DBUG_RED_LED_PIN HIGH, Delay 100,
      DigitalWrite DBUG_GRN_LED_PIN LOW, DigitalWrite DBUG_RED_LED_PIN LOW, Delay 300,
      DigitalWrite DBUG_GRN_LED_PIN HIGH, DigitalWrite DBUG_RED_LED_PIN HIGH, Delay 100,
      DigitalWrite DBUG_GRN_LED_PIN LOW, DigitalWrite DBUG_RED_LED_PIN LOW, Delay 300,
      DigitalWrite DBUG_GRN_LED_PIN HIGH, DigitalWrite DBUG_RED_LED_PIN HIGH, Delay 100,
      DigitalWrite DBUG_GRN_LED_PIN LOW, DigitalWrite DBUG_RED_LED_PIN LOW, Delay 1100]"

text \<open>
  \<^verbatim>\<open>while(1) { ... }\<close> has no exit and no \<^verbatim>\<open>break\<close>: once entered it is never
  left. A run of it is observed after a number of rounds: \<open>fail_loop n tr\<close> is the list
  of calls made when the loop, entered after the calls \<open>tr\<close>, has gone round \<open>n\<close> times.
\<close>

fun fail_loop :: "nat \<Rightarrow> event list \<Rightarrow> event list" where
  "fail_loop 0 tr = tr"
| "fail_loop (Suc n) tr = fail_loop n (tr @ fail_signal)"

text \<open>
  How far the sketch has come: it has returned from the code in question, with the
  state of its globals and the calls it made, or it is going round the fail loop, with
  the calls it has made so far.
\<close>

datatype progress = Returned logger "event list" | Looping "event list"

fun calls :: "progress \<Rightarrow> event list" where
  "calls (Returned st ev) = ev"
| "calls (Looping ev) = ev"

text \<open>
  \<^verbatim>\<open>while ((Log_File_Number < LOG_FILE_NUMBER_MAX) && (SD.exists(LOG_FILE(Log_File_Number))))
    Log_File_Number++;\<close>
\<close>

function find_slot :: "(string \<Rightarrow> bool) \<Rightarrow> u32 \<Rightarrow> u32" where
  "find_slot ex n =
     (if n < LOG_FILE_NUMBER_MAX \<and> ex (LOG_FILE n) then find_slot ex (n + 1) else n)"
  by pat_completeness auto
termination
  by (relation "measure (\<lambda>(ex, n). unat LOG_FILE_NUMBER_MAX - unat n)")
    (auto simp: LOG_FILE_NUMBER_MAX_def unat_word_ariths word_less_nat_alt)

declare find_slot.simps [simp del]

text \<open>
  \<^verbatim>\<open>if (Log_File_Number == LOG_FILE_NUMBER_MAX) SD.remove(LOG_FILE(0));
  else SD.remove(LOG_FILE(Log_File_Number+1));\<close> occurs twice in the sketch, in
  \<^verbatim>\<open>setup\<close> and in the rotation; \<open>next_in_line\<close> is the name it removes.
\<close>

definition next_in_line :: "u32 \<Rightarrow> string" where
  "next_in_line n = (if n = LOG_FILE_NUMBER_MAX then LOG_FILE 0 else LOG_FILE (n + 1))"

text \<open>
  \<^verbatim>\<open>void setup()\<close>, observed when it has returned or, if it is in the fail loop,
  when that loop has gone round \<open>n\<close> times. The counters keep the values of their
  initialisers.
\<close>

definition setup_run :: "nat \<Rightarrow> card \<Rightarrow> progress" where
  "setup_run n c =
     (let r = boot_report c;
          tr0 = setup_pins @ [SD_begin (begin_ok c)]
      in if \<not> begin_ok c then Looping (fail_loop n tr0)
         else
           let n0 = find_slot (present c) 0;
               (n1, tr1) =
                 (if n0 > LOG_FILE_NUMBER_MAX
                  then (0, tr0 @ [SD_remove (LOG_FILE 0) (remove_ok r)])
                  else (n0, tr0));
               tr2 = tr1 @ [SD_remove (next_in_line n1) (remove_ok r)];
               tr3 = tr2 @ [SD_open (LOG_FILE n1) (open_ok r)]
           in Returned \<lparr>Log_Time = 0, Log_Byte_Count = 0, Log_File_Byte_Count = 0,
                         Log_File_Number = n1,
                         dataFile = SD_open_handle (LOG_FILE n1) (open_ok r)\<rparr>
                (tr3 @ [Serial2_begin 230400, PinPeripheral 10, PinPeripheral 11]))"

text \<open>
  What \<^verbatim>\<open>setup\<close> returns, if it returns: the state of the globals and the calls made;
  \<open>None\<close> when it does not return. Since the fail loop is never left, \<^verbatim>\<open>setup\<close>
  returns exactly if it does so without entering the loop (\<open>setup_run_Returned\<close> and
  \<open>setup_sketch_None\<close> below).
\<close>

definition setup_sketch :: "card \<Rightarrow> (logger \<times> event list) option" where
  "setup_sketch c =
     (case setup_run 0 c of Returned st ev \<Rightarrow> Some (st, ev) | Looping ev \<Rightarrow> None)"

section \<open>loop\<close>

text \<open>
  \<^verbatim>\<open>if (++Log_File_Number > LOG_FILE_NUMBER_MAX) Log_File_Number = 0;\<close> The increment
  is that of a \<^verbatim>\<open>uint32_t\<close>.
\<close>

definition advance :: "u32 \<Rightarrow> u32" where
  "advance n = (if n + 1 > LOG_FILE_NUMBER_MAX then 0 else n + 1)"

text \<open>
  The \<^verbatim>\<open>else\<close> branch at a flush point: close the file, move to the next number,
  remove the file after it, open the new file.
\<close>

definition rotate :: "logger \<Rightarrow> sd_report \<Rightarrow> logger \<times> event list" where
  "rotate st r =
     (let n = advance (Log_File_Number st);
          st' = st\<lparr>Log_File_Byte_Count := 0, Log_File_Number := n,
                    dataFile := SD_open_handle (LOG_FILE n) (open_ok r)\<rparr>
      in (st', [File_close (dataFile st) (close_ok r),
                SD_remove (next_in_line n) (remove_ok r),
                SD_open (LOG_FILE n) (open_ok r)]))"

text \<open>
  The body of \<^verbatim>\<open>if ((Log_Byte_Count >= LOG_BYTE_TRIGGER) || (millis() >= Log_Time))\<close>:
  reset both triggers, then either flush or rotate.
\<close>

definition flush_point :: "logger \<Rightarrow> tick \<Rightarrow> logger \<times> event list" where
  "flush_point st t =
     (let st1 = st\<lparr>Log_Byte_Count := 0, Log_Time := now_rearm t + LOG_TIME_TRIGGER\<rparr>;
          (st2, ev) =
            (if Log_File_Byte_Count st1 < LOG_FILE_SIZE_TRIGGER
             then (st1, [File_flush (dataFile st1) (flush_ok (report t))])
             else rotate st1 (report t))
      in (st2, [DigitalWrite DBUG_RED_LED_PIN HIGH] @ ev @ [DigitalWrite DBUG_RED_LED_PIN LOW]))"

text \<open>The test that guards it, made on the counters after their increment.\<close>

definition trigger :: "logger \<Rightarrow> tick \<Rightarrow> bool" where
  "trigger st t \<longleftrightarrow> Log_Byte_Count st \<ge> LOG_BYTE_TRIGGER \<or> now_check t \<ge> Log_Time st"

text \<open>One pass through the body of \<^verbatim>\<open>while(Serial2.available())\<close>.\<close>

definition loop_body :: "logger \<Rightarrow> tick \<Rightarrow> logger \<times> event list" where
  "loop_body st t =
     (let ev = [Serial2_read (rx t), File_write (dataFile st) (rx t) (write_ok (report t))];
          st1 = st\<lparr>Log_File_Byte_Count := Log_File_Byte_Count st + 1,
                    Log_Byte_Count := Log_Byte_Count st + 1\<rparr>
      in if trigger st1 t
         then (let (st2, ev2) = flush_point st1 t in (st2, ev @ ev2))
         else (st1, ev))"

text \<open>
  The \<^verbatim>\<open>while\<close> of \<^verbatim>\<open>loop\<close>, for the bytes it finds in the receive buffer before the
  buffer is seen empty, one \<open>tick\<close> for each.
\<close>

fun drain :: "logger \<Rightarrow> tick list \<Rightarrow> logger \<times> event list" where
  "drain st [] = (st, [])"
| "drain st (t # ts) =
     (let (st1, ev1) = loop_body st t;
          (st2, ev2) = drain st1 ts
      in (st2, ev1 @ ev2))"

definition loop :: "logger \<Rightarrow> tick list \<Rightarrow> logger \<times> event list" where
  "loop st ts = (let (st', ev) = drain st ts in (st', ev @ [DigitalWrite DBUG_BLU_PIN LOW]))"

text \<open>The Arduino core calls \<^verbatim>\<open>loop\<close> again and again; one list of ticks per call.\<close>

fun loops :: "logger \<Rightarrow> tick list list \<Rightarrow> logger \<times> event list" where
  "loops st [] = (st, [])"
| "loops st (ts # tss) =
     (let (st1, ev1) = loop st ts;
          (st2, ev2) = loops st1 tss
      in (st2, ev1 @ ev2))"

text \<open>
  The sketch from power-up: \<^verbatim>\<open>setup\<close> and, once it has returned, the calls of
  \<^verbatim>\<open>loop\<close>, one list of ticks for each. While \<^verbatim>\<open>setup\<close> is in the fail loop,
  \<^verbatim>\<open>loop\<close> is not called.
\<close>

definition sketch_run :: "nat \<Rightarrow> card \<Rightarrow> tick list list \<Rightarrow> progress" where
  "sketch_run n c tss =
     (case setup_run n c of
        Looping ev \<Rightarrow> Looping ev
      | Returned st ev \<Rightarrow> (let (st', ev') = loops st tss in Returned st' (ev @ ev')))"

text \<open>
  A flush point commits the buffered bytes by one call on the handle: \<^verbatim>\<open>flush\<close>, or
  \<^verbatim>\<open>close\<close> when the file is rotated. \<open>commits\<close> counts these calls.
\<close>

fun is_commit :: "event \<Rightarrow> bool" where
  "is_commit (File_flush h ok) = True"
| "is_commit (File_close h ok) = True"
| "is_commit e = False"

definition commits :: "event list \<Rightarrow> nat" where
  "commits ev = length (filter is_commit ev)"

text \<open>Concrete inputs used to exercise the theorems below.\<close>

definition all_ok :: sd_report where
  "all_ok = \<lparr>write_ok = True, flush_ok = True, close_ok = True, remove_ok = True, open_ok = True\<rparr>"

definition race_state :: logger where
  "race_state = \<lparr>Log_Time = 5000, Log_Byte_Count = 11249, Log_File_Byte_Count = 20000,
     Log_File_Number = 3, dataFile = Some ''Dat0003.log''\<rparr>"

definition race_tick :: tick where
  "race_tick = \<lparr>rx = 65, now_check = 5000, now_rearm = 5001, report = all_ok\<rparr>"

definition full_file_state :: logger where
  "full_file_state = \<lparr>Log_Time = 9000, Log_Byte_Count = 11249,
     Log_File_Byte_Count = 2699999, Log_File_Number = 3, dataFile = Some ''Dat0003.log''\<rparr>"

definition quiet_tick :: tick where
  "quiet_tick = \<lparr>rx = 10, now_check = 7000, now_rearm = 7000, report = all_ok\<rparr>"

definition last_slot_state :: logger where
  "last_slot_state = \<lparr>Log_Time = 9000, Log_Byte_Count = 11249,
     Log_File_Byte_Count = 2699999, Log_File_Number = 1299, dataFile = Some ''Dat1299.log''\<rparr>"

text \<open>Calls on the serial port, the card or a file, as opposed to pins and delays.\<close>

fun is_data_call :: "event \<Rightarrow> bool" where
  "is_data_call (Serial2_begin baud) = True"
| "is_data_call (Serial2_read b) = True"
| "is_data_call (SD_remove name ok) = True"
| "is_data_call (SD_open name ok) = True"
| "is_data_call (File_write h b ok) = True"
| "is_data_call (File_flush h ok) = True"
| "is_data_call (File_close h ok) = True"
| "is_data_call e = False"

text \<open>A card with all 1300 log files on it, one with the first three, one that fails.\<close>

definition full_card :: card where
  "full_card = \<lparr>begin_ok = True,
     present = (\<lambda>name. name \<in> set (map (\<lambda>i. LOG_FILE (of_nat i)) [0..<1300])),
     boot_report = all_ok\<rparr>"

definition three_file_card :: card where
  "three_file_card = \<lparr>begin_ok = True,
     present = (\<lambda>name. name \<in> set [''Dat0000.log'', ''Dat0001.log'', ''Dat0002.log'']),
     boot_report = all_ok\<rparr>"

definition dead_card :: card where
  "dead_card = \<lparr>begin_ok = False, present = (\<lambda>name. False), boot_report = all_ok\<rparr>"

text \<open>
  The traffic of a run: each byte taken from the serial port and each byte handed to
  \<^verbatim>\<open>dataFile.write\<close>, in program order.
\<close>

datatype transfer = Drained byte | Appended byte

fun transfer_of :: "event \<Rightarrow> transfer list" where
  "transfer_of (Serial2_read b) = [Drained b]"
| "transfer_of (File_write h b ok) = [Appended b]"
| "transfer_of e = []"

definition transfers :: "event list \<Rightarrow> transfer list" where
  "transfers ev = concat (map transfer_of ev)"

text \<open>The bytes appended by a run and the names it opened, in program order.\<close>

fun written :: "event \<Rightarrow> byte list" where
  "written (File_write h b ok) = [b]"
| "written e = []"

definition appended :: "event list \<Rightarrow> byte list" where
  "appended ev = concat (map written ev)"

fun open_name :: "event \<Rightarrow> string list" where
  "open_name (SD_open name ok) = [name]"
| "open_name e = []"

definition opened :: "event list \<Rightarrow> string list" where
  "opened ev = concat (map open_name ev)"

text \<open>
  The appended bytes split at the file boundaries: \<open>sessions c a ev\<close> starts in file
  \<open>c\<close>, to which \<open>a\<close> has been appended already, and begins a new chunk at every
  \<^verbatim>\<open>SD.open\<close>. Each chunk is paired with the name of its file.
\<close>

fun sessions :: "string \<Rightarrow> byte list \<Rightarrow> event list \<Rightarrow> (string \<times> byte list) list" where
  "sessions c a [] = [(c, a)]"
| "sessions c a (File_write h b ok # es) = sessions c (a @ [b]) es"
| "sessions c a (SD_open name ok # es) = (c, a) # sessions name [] es"
| "sessions c a (e # es) = sessions c a es"



text \<open>
  The relation between the two byte counters that every pass of the loop body keeps:
  fewer than 11250 bytes since the last flush point, and fewer than 2,700,000 bytes in
  the file at the last flush point.
\<close>

definition counters_inv :: "logger \<Rightarrow> bool" where
  "counters_inv st \<longleftrightarrow>
     unat (Log_Byte_Count st) < 11250 \<and>
     unat (Log_File_Byte_Count st) < 2700000 + unat (Log_Byte_Count st)"

text \<open>
  A stretch of the run that starts in file \<open>c\<close> with \<open>a\<close> already appended: every chunk
  stays below 2,711,250 bytes, and the file counter at the end is the length of the
  chunk still open.
\<close>

definition chunks_ok :: "string \<Rightarrow> byte list \<Rightarrow> logger \<times> event list \<Rightarrow> bool" where
  "chunks_ok c a r \<longleftrightarrow>
     list_all (\<lambda>x. length (snd x) < 2711250) (sessions c a (snd r)) \<and>
     length (snd (last (sessions c a (snd r)))) = unat (Log_File_Byte_Count (fst r))"

text \<open>
  What the sketch itself does in a stretch of the run: the values it leaves in its
  counters and the calls it makes, without what the storage library reported for them.
\<close>

fun call_of :: "event \<Rightarrow> event" where
  "call_of (SD_remove name ok) = SD_remove name True"
| "call_of (SD_open name ok) = SD_open name True"
| "call_of (File_write h b ok) = File_write h b True"
| "call_of (File_flush h ok) = File_flush h True"
| "call_of (File_close h ok) = File_close h True"
| "call_of e = e"

fun is_storage :: "event \<Rightarrow> bool" where
  "is_storage (SD_remove name ok) = True"
| "is_storage (SD_open name ok) = True"
| "is_storage (File_write h b ok) = True"
| "is_storage (File_flush h ok) = True"
| "is_storage (File_close h ok) = True"
| "is_storage e = False"

definition core :: "logger \<times> event list \<Rightarrow> (u32 \<times> u32 \<times> u32 \<times> u32) \<times> event list" where
  "core r =
     ((Log_Time (fst r), Log_Byte_Count (fst r), Log_File_Byte_Count (fst r),
       Log_File_Number (fst r)),
      map call_of (snd r))"

definition all_fail :: sd_report where
  "all_fail = \<lparr>write_ok = False, flush_ok = False, close_ok = False, remove_ok = False,
     open_ok = False\<rparr>"

definition failing_tick :: tick where
  "failing_tick = \<lparr>rx = 10, now_check = 7000, now_rearm = 7000, report = all_fail\<rparr>"

definition three_file_boot :: logger where
  "three_file_boot = \<lparr>Log_Time = 0, Log_Byte_Count = 0, Log_File_Byte_Count = 0,
     Log_File_Number = 3, dataFile = Some ''Dat0003.log''\<rparr>"

section \<open>Facts about file names\<close>

lemma String_dec_small: "n < 10 \<Longrightarrow> String_dec n = [digit_char n]"
  by (subst String_dec.simps) simp

lemma String_dec_large:
  "10 \<le> n \<Longrightarrow> String_dec n = String_dec (n div 10) @ [digit_char (n mod 10)]"
  by (subst String_dec.simps) simp

lemma length_String_dec_1: "n < 10 \<Longrightarrow> length (String_dec n) = 1"
  by (simp add: String_dec_small)

lemma length_String_dec_2: "10 \<le> n \<Longrightarrow> n < 100 \<Longrightarrow> length (String_dec n) = 2"
proof -
  assume a: "10 \<le> n" "n < 100"
  then have "n div 10 < 10" by simp
  then have "length (String_dec (n div 10)) = 1" by (rule length_String_dec_1)
  with a show ?thesis by (simp add: String_dec_large)
qed

lemma length_String_dec_3: "100 \<le> n \<Longrightarrow> n < 1000 \<Longrightarrow> length (String_dec n) = 3"
proof -
  assume a: "100 \<le> n" "n < 1000"
  then have "10 \<le> n div 10" "n div 10 < 100" by simp_all
  then have "length (String_dec (n div 10)) = 2" by (rule length_String_dec_2)
  with a show ?thesis by (simp add: String_dec_large)
qed

lemma length_String_dec_4: "1000 \<le> n \<Longrightarrow> n < 10000 \<Longrightarrow> length (String_dec n) = 4"
proof -
  assume a: "1000 \<le> n" "n < 10000"
  then have "100 \<le> n div 10" "n div 10 < 1000" by simp_all
  then have "length (String_dec (n div 10)) = 3" by (rule length_String_dec_3)
  with a show ?thesis by (simp add: String_dec_large)
qed

lemma unat_index: "i \<le> 1299 \<Longrightarrow> unat (of_nat i :: u32) = i"
  by (simp add: unat_of_nat)

lemma sint_index: "i \<le> 1299 \<Longrightarrow> sint (of_nat i :: u32) = int i"
proof -
  assume a: "i \<le> 1299"
  have "sint (word_of_int (int i) :: u32) = signed_take_bit (LENGTH(32) - 1) (int i)"
    by (rule sint_sbintrunc')
  also have "\<dots> = int i"
    using a by (simp add: signed_take_bit_int_eq_self)
  finally show ?thesis by simp
qed

lemma Str_Zeros_padding:
  "i < 10000 \<Longrightarrow> Str_Zeros (int i) = replicate (4 - length (String_dec i)) (CHR ''0'')"
proof -
  assume b: "i < 10000"
  consider "i < 10" | "10 \<le> i" "i < 100" | "100 \<le> i" "i < 1000" | "1000 \<le> i"
    by linarith
  then show ?thesis
  proof cases
    case 1
    then show ?thesis by (simp add: Str_Zeros_def length_String_dec_1 numeral_3_eq_3)
  next
    case 2
    then show ?thesis by (simp add: Str_Zeros_def length_String_dec_2 numeral_2_eq_2)
  next
    case 3
    then show ?thesis by (simp add: Str_Zeros_def length_String_dec_3)
  next
    case 4
    with b show ?thesis by (simp add: Str_Zeros_def length_String_dec_4)
  qed
qed

lemma length_zero_padded: "i < 10000 \<Longrightarrow> length (zero_padded i) = 4"
proof -
  assume b: "i < 10000"
  consider "i < 10" | "10 \<le> i" "i < 100" | "100 \<le> i" "i < 1000" | "1000 \<le> i"
    by linarith
  then show ?thesis
  proof cases
    case 1
    then show ?thesis by (simp add: zero_padded_def length_String_dec_1)
  next
    case 2
    then show ?thesis by (simp add: zero_padded_def length_String_dec_2)
  next
    case 3
    then show ?thesis by (simp add: zero_padded_def length_String_dec_3)
  next
    case 4
    with b show ?thesis by (simp add: zero_padded_def length_String_dec_4)
  qed
qed

lemma LOG_FILE_format: "i \<le> 1299 \<Longrightarrow> LOG_FILE (of_nat i) = format_name i"
  by (simp add: LOG_FILE_def format_name_def zero_padded_def unat_index sint_index
      Str_Zeros_padding LOG_FILE_PREFIX_def LOG_FILE_SUFFIX_def)

lemma LOG_FILE_7: "LOG_FILE 7 = ''Dat0007.log''"
  by (simp add: LOG_FILE_def Str_Zeros_def String_dec_small digit_char_def
      LOG_FILE_PREFIX_def LOG_FILE_SUFFIX_def)

lemma LOG_FILE_142: "LOG_FILE 142 = ''Dat0142.log''"
  by (simp add: LOG_FILE_def Str_Zeros_def String_dec_small String_dec_large digit_char_def
      LOG_FILE_PREFIX_def LOG_FILE_SUFFIX_def)

lemma LOG_FILE_1299: "LOG_FILE 1299 = ''Dat1299.log''"
  by (simp add: LOG_FILE_def Str_Zeros_def String_dec_small String_dec_large digit_char_def
      LOG_FILE_PREFIX_def LOG_FILE_SUFFIX_def)

lemma loop_body_quiet:
  "\<not> trigger (st\<lparr>Log_File_Byte_Count := Log_File_Byte_Count st + 1,
                    Log_Byte_Count := Log_Byte_Count st + 1\<rparr>) t \<Longrightarrow>
   loop_body st t =
     (st\<lparr>Log_File_Byte_Count := Log_File_Byte_Count st + 1,
          Log_Byte_Count := Log_Byte_Count st + 1\<rparr>,
      [Serial2_read (rx t), File_write (dataFile st) (rx t) (write_ok (report t))])"
  by (simp add: loop_body_def Let_def)

lemma loop_body_flush:
  "Log_Byte_Count st + 1 \<ge> LOG_BYTE_TRIGGER \<or> now_check t \<ge> Log_Time st \<Longrightarrow>
   Log_File_Byte_Count st + 1 < LOG_FILE_SIZE_TRIGGER \<Longrightarrow>
   loop_body st t =
     (st\<lparr>Log_File_Byte_Count := Log_File_Byte_Count st + 1,
          Log_Byte_Count := 0, Log_Time := now_rearm t + LOG_TIME_TRIGGER\<rparr>,
      [Serial2_read (rx t), File_write (dataFile st) (rx t) (write_ok (report t)),
       DigitalWrite DBUG_RED_LED_PIN HIGH,
       File_flush (dataFile st) (flush_ok (report t)),
       DigitalWrite DBUG_RED_LED_PIN LOW])"
  by (simp add: loop_body_def Let_def trigger_def flush_point_def)

lemma loop_body_rotate:
  "Log_Byte_Count st + 1 \<ge> LOG_BYTE_TRIGGER \<or> now_check t \<ge> Log_Time st \<Longrightarrow>
   \<not> Log_File_Byte_Count st + 1 < LOG_FILE_SIZE_TRIGGER \<Longrightarrow>
   loop_body st t =
     (st\<lparr>Log_File_Byte_Count := 0,
          Log_Byte_Count := 0, Log_Time := now_rearm t + LOG_TIME_TRIGGER,
          Log_File_Number := advance (Log_File_Number st),
          dataFile := SD_open_handle (LOG_FILE (advance (Log_File_Number st))) (open_ok (report t))\<rparr>,
      [Serial2_read (rx t), File_write (dataFile st) (rx t) (write_ok (report t)),
       DigitalWrite DBUG_RED_LED_PIN HIGH,
       File_close (dataFile st) (close_ok (report t)),
       SD_remove (next_in_line (advance (Log_File_Number st))) (remove_ok (report t)),
       SD_open (LOG_FILE (advance (Log_File_Number st))) (open_ok (report t)),
       DigitalWrite DBUG_RED_LED_PIN LOW])"
  by (simp add: loop_body_def Let_def trigger_def flush_point_def rotate_def)

lemma advance_le: "advance n \<le> LOG_FILE_NUMBER_MAX"
  by (simp add: advance_def not_less)

lemma advance_mod:
  assumes "n \<le> LOG_FILE_NUMBER_MAX"
  shows "unat (advance n) = (unat n + 1) mod 1300"
proof (cases "n = 1299")
  case True
  then show ?thesis by (simp add: advance_def LOG_FILE_NUMBER_MAX_def)
next
  case False
  with assms have "n < 1299"
    by (simp add: LOG_FILE_NUMBER_MAX_def)
  then have "unat n < 1299"
    by (simp add: word_less_nat_alt)
  then show ?thesis
    by (simp add: advance_def LOG_FILE_NUMBER_MAX_def unat_word_ariths word_less_nat_alt)
qed

lemma next_in_line_mod:
  assumes "n \<le> LOG_FILE_NUMBER_MAX"
  shows "next_in_line n = LOG_FILE (of_nat ((unat n + 1) mod 1300))"
proof (cases "n = 1299")
  case True
  then show ?thesis by (simp add: next_in_line_def LOG_FILE_NUMBER_MAX_def)
next
  case False
  with assms have "n < 1299"
    by (simp add: LOG_FILE_NUMBER_MAX_def)
  then have "unat n < 1299"
    by (simp add: word_less_nat_alt)
  then have "(unat n + 1) mod 1300 = unat n + 1" by simp
  with False show ?thesis
    by (simp add: next_in_line_def LOG_FILE_NUMBER_MAX_def add.commute)
qed

lemma advance_1299: "advance 1299 = 0"
  by (simp add: advance_def LOG_FILE_NUMBER_MAX_def)

lemma find_slot_stops:
  assumes "k \<le> 1299"
    and "unat n \<le> k"
    and "\<forall>j. unat n \<le> j \<and> j < k \<longrightarrow> ex (LOG_FILE (of_nat j))"
    and "k = 1299 \<or> \<not> ex (LOG_FILE (of_nat k))"
  shows "find_slot ex n = of_nat k"
  using assms
proof (induction "k - unat n" arbitrary: n)
  case 0
  then have "unat n = k" by simp
  then have "(of_nat (unat n) :: u32) = of_nat k" by simp
  then have n: "n = of_nat k" by simp
  from 0 have "\<not> (n < LOG_FILE_NUMBER_MAX \<and> ex (LOG_FILE n))"
    unfolding n by (auto simp: LOG_FILE_NUMBER_MAX_def)
  then have "find_slot ex n = n"
    by (subst find_slot.simps) auto
  with n show ?case by simp
next
  case (Suc d)
  then have lt: "unat n < k" by simp
  with Suc.prems(1) have "unat n < 1299" by simp
  then have n_lt: "n < LOG_FILE_NUMBER_MAX"
    by (simp add: LOG_FILE_NUMBER_MAX_def word_less_nat_alt)
  from Suc.prems(3) lt have "ex (LOG_FILE (of_nat (unat n)))" by blast
  then have here: "ex (LOG_FILE n)" by simp
  from \<open>unat n < 1299\<close> have step: "unat (n + 1) = unat n + 1"
    by (simp add: unat_word_ariths)
  have "find_slot ex n = find_slot ex (n + 1)"
    using n_lt here by (subst find_slot.simps) simp
  also have "\<dots> = of_nat k"
  proof (rule Suc.hyps(1))
    show "d = k - unat (n + 1)" using Suc.hyps(2) step by simp
    show "k \<le> 1299" by fact
    show "unat (n + 1) \<le> k" using lt step by simp
    show "\<forall>j. unat (n + 1) \<le> j \<and> j < k \<longrightarrow> ex (LOG_FILE (of_nat j))"
      using Suc.prems(3) step by simp
    show "k = 1299 \<or> \<not> ex (LOG_FILE (of_nat k))" by fact
  qed
  finally show ?case .
qed

lemma fail_loop_append: "fail_loop n tr = tr @ concat (replicate n fail_signal)"
  by (induction n arbitrary: tr) simp_all

lemma no_data_call_fail_signal: "filter is_data_call fail_signal = []"
  by (simp add: fail_signal_def)

lemma no_data_call_setup_pins: "filter is_data_call setup_pins = []"
  by (simp add: setup_pins_def)

lemma no_data_call_rounds: "filter is_data_call (concat (replicate n fail_signal)) = []"
  by (induction n) (simp_all add: no_data_call_fail_signal)

lemma setup_run_fail:
  "\<not> begin_ok c \<Longrightarrow>
   setup_run n c = Looping (setup_pins @ [SD_begin False] @ concat (replicate n fail_signal))"
  by (simp add: setup_run_def Let_def fail_loop_append)

lemma setup_run_fuel: "begin_ok c \<Longrightarrow> setup_run n c = setup_run 0 c"
  by (simp add: setup_run_def Let_def)

lemma setup_run_Returned:
  "setup_run n c = Returned st ev \<longleftrightarrow> setup_sketch c = Some (st, ev)"
proof (cases "begin_ok c")
  case True
  then have "setup_run n c = setup_run 0 c" by (rule setup_run_fuel)
  then show ?thesis
    by (cases "setup_run 0 c") (simp_all add: setup_sketch_def)
next
  case False
  then show ?thesis
    by (simp add: setup_run_fail setup_sketch_def)
qed

lemma setup_sketch_None:
  "setup_sketch c = None \<longleftrightarrow>
   (\<forall>n. setup_run n c = Looping (setup_pins @ [SD_begin False] @ concat (replicate n fail_signal)))"
proof (cases "begin_ok c")
  case True
  then have "\<exists>st ev. setup_run 0 c = Returned st ev"
    by (simp add: setup_run_def Let_def split: prod.splits)
  then show ?thesis
    by (auto simp: setup_sketch_def)
next
  case False
  then show ?thesis
    by (simp add: setup_run_fail setup_sketch_def)
qed

lemma setup_sketch_fail: "\<not> begin_ok c \<Longrightarrow> setup_sketch c = None"
  by (simp add: setup_sketch_def setup_run_fail)

lemma setup_sketch_started:
  assumes "begin_ok c"
    and "k \<le> 1299"
    and "\<forall>j<k. present c (LOG_FILE (of_nat j))"
    and "k = 1299 \<or> \<not> present c (LOG_FILE (of_nat k))"
  shows "setup_sketch c =
    Some (\<lparr>Log_Time = 0, Log_Byte_Count = 0, Log_File_Byte_Count = 0,
            Log_File_Number = of_nat k,
            dataFile = SD_open_handle (LOG_FILE (of_nat k)) (open_ok (boot_report c))\<rparr>,
          setup_pins @
          [SD_begin True,
           SD_remove (next_in_line (of_nat k)) (remove_ok (boot_report c)),
           SD_open (LOG_FILE (of_nat k)) (open_ok (boot_report c)),
           Serial2_begin 230400, PinPeripheral 10, PinPeripheral 11])"
proof -
  have "find_slot (present c) 0 = of_nat k"
    using assms(2-4) by (intro find_slot_stops) simp_all
  moreover have "\<not> (of_nat k :: u32) > LOG_FILE_NUMBER_MAX"
    using assms(2) by (simp add: LOG_FILE_NUMBER_MAX_def word_less_nat_alt unat_of_nat not_less)
  ultimately show ?thesis
    using assms(1) by (simp add: setup_sketch_def setup_run_def Let_def)
qed

lemma all_less_3: "(\<forall>j<3::nat. P j) \<longleftrightarrow> P 0 \<and> P (Suc 0) \<and> P (Suc (Suc 0))"
  by (auto simp: numeral_3_eq_3 less_Suc_eq)

lemmas LOG_FILE_eval = LOG_FILE_def Str_Zeros_def String_dec_small String_dec_large
  digit_char_def LOG_FILE_PREFIX_def LOG_FILE_SUFFIX_def

lemma full_card_present: "j \<le> 1299 \<Longrightarrow> present full_card (LOG_FILE (of_nat j))"
  by (auto simp: full_card_def)

lemma transfers_simps [simp]:
  "transfers [] = []"
  "transfers (e # es) = transfer_of e @ transfers es"
  "transfers (xs @ ys) = transfers xs @ transfers ys"
  by (simp_all add: transfers_def)

lemma appended_simps [simp]:
  "appended [] = []"
  "appended (e # es) = written e @ appended es"
  "appended (xs @ ys) = appended xs @ appended ys"
  by (simp_all add: appended_def)

lemma opened_simps [simp]:
  "opened [] = []"
  "opened (e # es) = open_name e @ opened es"
  "opened (xs @ ys) = opened xs @ opened ys"
  by (simp_all add: opened_def)








lemma loop_body_cases:
  obtains
    (quiet) "loop_body st t =
       (st\<lparr>Log_File_Byte_Count := Log_File_Byte_Count st + 1,
            Log_Byte_Count := Log_Byte_Count st + 1\<rparr>,
        [Serial2_read (rx t), File_write (dataFile st) (rx t) (write_ok (report t))])"
      "\<not> LOG_BYTE_TRIGGER \<le> Log_Byte_Count st + 1"
  | (flush) "loop_body st t =
       (st\<lparr>Log_File_Byte_Count := Log_File_Byte_Count st + 1,
            Log_Byte_Count := 0, Log_Time := now_rearm t + LOG_TIME_TRIGGER\<rparr>,
        [Serial2_read (rx t), File_write (dataFile st) (rx t) (write_ok (report t)),
         DigitalWrite DBUG_RED_LED_PIN HIGH,
         File_flush (dataFile st) (flush_ok (report t)),
         DigitalWrite DBUG_RED_LED_PIN LOW])"
      "Log_File_Byte_Count st + 1 < LOG_FILE_SIZE_TRIGGER"
  | (rotate) "loop_body st t =
       (st\<lparr>Log_File_Byte_Count := 0,
            Log_Byte_Count := 0, Log_Time := now_rearm t + LOG_TIME_TRIGGER,
            Log_File_Number := advance (Log_File_Number st),
            dataFile := SD_open_handle (LOG_FILE (advance (Log_File_Number st)))
                          (open_ok (report t))\<rparr>,
        [Serial2_read (rx t), File_write (dataFile st) (rx t) (write_ok (report t)),
         DigitalWrite DBUG_RED_LED_PIN HIGH,
         File_close (dataFile st) (close_ok (report t)),
         SD_remove (next_in_line (advance (Log_File_Number st))) (remove_ok (report t)),
         SD_open (LOG_FILE (advance (Log_File_Number st))) (open_ok (report t)),
         DigitalWrite DBUG_RED_LED_PIN LOW])"
proof (cases "LOG_BYTE_TRIGGER \<le> Log_Byte_Count st + 1 \<or> Log_Time st \<le> now_check t")
  case False
  then have "\<not> trigger (st\<lparr>Log_File_Byte_Count := Log_File_Byte_Count st + 1,
                    Log_Byte_Count := Log_Byte_Count st + 1\<rparr>) t"
    by (simp add: trigger_def)
  from loop_body_quiet [OF this] False show ?thesis by (intro quiet) simp_all
next
  case fp: True
  show ?thesis
  proof (cases "Log_File_Byte_Count st + 1 < LOG_FILE_SIZE_TRIGGER")
    case True
    from loop_body_flush [OF fp True] True show ?thesis by (rule flush)
  next
    case False
    from loop_body_rotate [OF fp False] show ?thesis by (rule rotate)
  qed
qed













lemma sessions_not_Nil [simp]: "sessions c a ev \<noteq> []"
  by (induction c a ev rule: sessions.induct) simp_all

lemma sessions_append:
  "sessions c a (e1 @ e2) =
     butlast (sessions c a e1) @
     sessions (fst (last (sessions c a e1))) (snd (last (sessions c a e1))) e2"
  by (induction c a e1 rule: sessions.induct) simp_all

lemma counters_inv_bound:
  "counters_inv st \<Longrightarrow> unat (Log_File_Byte_Count st) + 1 < 2711250"
  by (simp add: counters_inv_def)

lemma unat_incr: "unat (x :: u32) < 2711250 \<Longrightarrow> unat (x + 1) = unat x + 1"
  by (simp add: unat_word_ariths)

lemma loop_body_inv:
  assumes "counters_inv st"
  shows "counters_inv (fst (loop_body st t))"
proof -
  from assms have c: "unat (Log_Byte_Count st + 1) = unat (Log_Byte_Count st) + 1"
    by (intro unat_incr) (simp add: counters_inv_def)
  from assms have f: "unat (Log_File_Byte_Count st + 1) = unat (Log_File_Byte_Count st) + 1"
    by (intro unat_incr) (simp add: counters_inv_def)
  show ?thesis
  proof (cases rule: loop_body_cases [of st t])
    case quiet
    from quiet(2) have "unat (Log_Byte_Count st + 1) < 11250"
      by (simp add: LOG_BYTE_TRIGGER_def word_le_nat_alt)
    with quiet(1) assms c f show ?thesis by (simp add: counters_inv_def)
  next
    case flush
    from flush(2) have "unat (Log_File_Byte_Count st + 1) < 2700000"
      by (simp add: LOG_FILE_SIZE_TRIGGER_def word_less_nat_alt)
    with flush(1) show ?thesis by (simp add: counters_inv_def)
  next
    case rotate
    then show ?thesis by (simp add: counters_inv_def)
  qed
qed

lemma loop_body_chunks:
  assumes "counters_inv st" and "length a = unat (Log_File_Byte_Count st)"
  shows "chunks_ok c a (loop_body st t)"
proof -
  from assms(1) have f: "unat (Log_File_Byte_Count st + 1) = unat (Log_File_Byte_Count st) + 1"
    by (intro unat_incr) (simp add: counters_inv_def)
  from assms(1) have b: "unat (Log_File_Byte_Count st) + 1 < 2711250"
    by (rule counters_inv_bound)
  show ?thesis
  proof (cases rule: loop_body_cases [of st t])
    case quiet
    with assms(2) f b show ?thesis by (simp add: chunks_ok_def)
  next
    case flush
    with assms(2) f b show ?thesis by (simp add: chunks_ok_def)
  next
    case rotate
    with assms(2) f b show ?thesis by (simp add: chunks_ok_def)
  qed
qed

lemma chunks_ok_trans:
  assumes "chunks_ok c a (st1, e1)"
    and "\<And>c' a'. length a' = unat (Log_File_Byte_Count st1) \<Longrightarrow> chunks_ok c' a' (st2, e2)"
  shows "chunks_ok c a (st2, e1 @ e2)"
proof -
  let ?s1 = "sessions c a e1"
  let ?s2 = "sessions (fst (last ?s1)) (snd (last ?s1)) e2"
  from assms(1) have all1: "list_all (\<lambda>x. length (snd x) < 2711250) ?s1"
    and len1: "length (snd (last ?s1)) = unat (Log_File_Byte_Count st1)"
    by (simp_all add: chunks_ok_def)
  from assms(2) [OF len1] have all2: "list_all (\<lambda>x. length (snd x) < 2711250) ?s2"
    and len2: "length (snd (last ?s2)) = unat (Log_File_Byte_Count st2)"
    by (simp_all add: chunks_ok_def)
  from all1 have "list_all (\<lambda>x. length (snd x) < 2711250) (butlast ?s1)"
    by (auto simp: list_all_iff dest: in_set_butlastD)
  with all2 len2 show ?thesis
    by (simp add: chunks_ok_def sessions_append)
qed

lemma drain_inv: "counters_inv st \<Longrightarrow> counters_inv (fst (drain st ts))"
proof (induction ts arbitrary: st)
  case Nil
  then show ?case by simp
next
  case (Cons t ts)
  obtain st1 ev1 where b: "loop_body st t = (st1, ev1)" by (cases "loop_body st t")
  obtain st2 ev2 where d: "drain st1 ts = (st2, ev2)" by (cases "drain st1 ts")
  from Cons.prems b have "counters_inv st1"
    using loop_body_inv [of st t] by simp
  then have "counters_inv st2"
    using Cons.IH [of st1] d by simp
  with b d show ?case by simp
qed

lemma drain_chunks:
  "counters_inv st \<Longrightarrow> length a = unat (Log_File_Byte_Count st) \<Longrightarrow>
   chunks_ok c a (drain st ts)"
proof (induction ts arbitrary: st c a)
  case Nil
  then show ?case by (simp add: chunks_ok_def counters_inv_def)
next
  case (Cons t ts)
  obtain st1 ev1 where b: "loop_body st t = (st1, ev1)" by (cases "loop_body st t")
  obtain st2 ev2 where d: "drain st1 ts = (st2, ev2)" by (cases "drain st1 ts")
  from Cons.prems(1) b have i1: "counters_inv st1"
    using loop_body_inv [of st t] by simp
  from Cons.prems b have c1: "chunks_ok c a (st1, ev1)"
    using loop_body_chunks [of st a c t] by simp
  have "chunks_ok c a (st2, ev1 @ ev2)"
  proof (rule chunks_ok_trans [OF c1])
    fix c' :: string and a' :: "byte list"
    assume "length a' = unat (Log_File_Byte_Count st1)"
    with i1 d show "chunks_ok c' a' (st2, ev2)"
      using Cons.IH [of st1 a' c'] by simp
  qed
  with b d show ?case by simp
qed

lemma loop_inv: "counters_inv st \<Longrightarrow> counters_inv (fst (loop st ts))"
  using drain_inv [of st ts] by (cases "drain st ts") (simp add: loop_def)

lemma loop_chunks:
  assumes "counters_inv st" and "length a = unat (Log_File_Byte_Count st)"
  shows "chunks_ok c a (loop st ts)"
proof -
  obtain st1 ev1 where d: "drain st ts = (st1, ev1)" by (cases "drain st ts")
  with assms have c1: "chunks_ok c a (st1, ev1)"
    using drain_chunks [of st a c ts] by simp
  from assms(1) d have "counters_inv st1"
    using drain_inv [of st ts] by simp
  then have "chunks_ok c a (st1, ev1 @ [DigitalWrite DBUG_BLU_PIN LOW])"
    by (intro chunks_ok_trans [OF c1]) (simp add: chunks_ok_def counters_inv_def)
  with d show ?thesis by (simp add: loop_def)
qed

lemma loops_inv: "counters_inv st \<Longrightarrow> counters_inv (fst (loops st tss))"
proof (induction tss arbitrary: st)
  case Nil
  then show ?case by simp
next
  case (Cons ts tss)
  obtain st1 ev1 where b: "loop st ts = (st1, ev1)" by (cases "loop st ts")
  obtain st2 ev2 where d: "loops st1 tss = (st2, ev2)" by (cases "loops st1 tss")
  from Cons.prems b have "counters_inv st1"
    using loop_inv [of st ts] by simp
  then have "counters_inv st2"
    using Cons.IH [of st1] d by simp
  with b d show ?case by simp
qed

lemma loops_chunks:
  "counters_inv st \<Longrightarrow> length a = unat (Log_File_Byte_Count st) \<Longrightarrow>
   chunks_ok c a (loops st tss)"
proof (induction tss arbitrary: st c a)
  case Nil
  then show ?case by (simp add: chunks_ok_def counters_inv_def)
next
  case (Cons ts tss)
  obtain st1 ev1 where b: "loop st ts = (st1, ev1)" by (cases "loop st ts")
  obtain st2 ev2 where d: "loops st1 tss = (st2, ev2)" by (cases "loops st1 tss")
  from Cons.prems(1) b have i1: "counters_inv st1"
    using loop_inv [of st ts] by simp
  from Cons.prems b have c1: "chunks_ok c a (st1, ev1)"
    using loop_chunks [of st a c ts] by simp
  have "chunks_ok c a (st2, ev1 @ ev2)"
  proof (rule chunks_ok_trans [OF c1])
    fix c' :: string and a' :: "byte list"
    assume "length a' = unat (Log_File_Byte_Count st1)"
    with i1 d show "chunks_ok c' a' (st2, ev2)"
      using Cons.IH [of st1 a' c'] by simp
  qed
  with b d show ?case by simp
qed

lemma setup_sketch_counters:
  assumes "setup_sketch c = Some (st0, ev0)"
  shows "Log_Byte_Count st0 = 0 \<and> Log_File_Byte_Count st0 = 0"
proof (cases "begin_ok c")
  case False
  with assms show ?thesis by (simp add: setup_sketch_fail)
next
  case True
  with assms show ?thesis
    by (auto simp: setup_sketch_def setup_run_def Let_def split: if_splits prod.splits)
qed

lemma loop_body_core:
  "core (loop_body st (t\<lparr>report := r\<rparr>)) = core (loop_body st (t\<lparr>report := r'\<rparr>))"
  by (simp add: core_def loop_body_def flush_point_def rotate_def trigger_def Let_def)

lemma loop_body_storage_calls:
  "map call_of (filter is_storage (snd (loop_body st t))) =
     [File_write (dataFile st) (rx t) True]
   \<or> map call_of (filter is_storage (snd (loop_body st t))) =
     [File_write (dataFile st) (rx t) True, File_flush (dataFile st) True]
   \<or> map call_of (filter is_storage (snd (loop_body st t))) =
     [File_write (dataFile st) (rx t) True, File_close (dataFile st) True,
      SD_remove (next_in_line (Log_File_Number (fst (loop_body st t)))) True,
      SD_open (LOG_FILE (Log_File_Number (fst (loop_body st t)))) True]"
  by (cases rule: loop_body_cases [of st t]) simp_all

lemma setup_three_file_card:
  "setup_sketch three_file_card =
     Some (three_file_boot,
           setup_pins @
           [SD_begin True, SD_remove ''Dat0004.log'' True, SD_open ''Dat0003.log'' True,
            Serial2_begin 230400, PinPeripheral 10, PinPeripheral 11])"
  using setup_sketch_started [of three_file_card 3]
  by (simp add: three_file_card_def three_file_boot_def all_ok_def all_less_3 LOG_FILE_eval
      next_in_line_def LOG_FILE_NUMBER_MAX_def SD_open_handle_def)

section \<open>Claims\<close>

subsection \<open>C1\<close>



subsection \<open>C2\<close>

text \<open>
  C2. In every rotation the new file number is at most 1299, and the single file removed
  is the one whose index is the new number plus one modulo 1300. The removal follows the
  close of the old file and precedes the open of the new one; the only byte appended in
  the step went to the old handle before the close. From number 1299 the new number is
  0 and the file removed is that of index 1.
\<close>

theorem rotation_removes_slot_after_new_active:
  assumes "11250 \<le> Log_Byte_Count st + 1 \<or> Log_Time st \<le> now_check t"
    and "2700000 \<le> Log_File_Byte_Count st + 1"
  shows "Log_File_Number (fst (loop_body st t)) \<le> 1299
       \<and> snd (loop_body st t) =
           [Serial2_read (rx t), File_write (dataFile st) (rx t) (write_ok (report t)),
            DigitalWrite DBUG_RED_LED_PIN HIGH,
            File_close (dataFile st) (close_ok (report t)),
            SD_remove (LOG_FILE (of_nat ((unat (Log_File_Number (fst (loop_body st t))) + 1)
                                   mod 1300)))
              (remove_ok (report t)),
            SD_open (LOG_FILE (Log_File_Number (fst (loop_body st t)))) (open_ok (report t)),
            DigitalWrite DBUG_RED_LED_PIN LOW]
       \<and> (Log_File_Number st \<le> 1299 \<longrightarrow>
            unat (Log_File_Number (fst (loop_body st t))) =
              (unat (Log_File_Number st) + 1) mod 1300)
       \<and> (Log_File_Number st = 1299 \<longrightarrow>
            Log_File_Number (fst (loop_body st t)) = 0 \<and>
            LOG_FILE (of_nat ((unat (Log_File_Number (fst (loop_body st t))) + 1) mod 1300))
              = LOG_FILE 1)"
proof -
  from assms(1)
  have fp: "LOG_BYTE_TRIGGER \<le> Log_Byte_Count st + 1 \<or> Log_Time st \<le> now_check t"
    by (simp add: LOG_BYTE_TRIGGER_def)
  from assms(2) have big: "\<not> Log_File_Byte_Count st + 1 < LOG_FILE_SIZE_TRIGGER"
    by (simp add: LOG_FILE_SIZE_TRIGGER_def not_less)
  have le: "advance (Log_File_Number st) \<le> LOG_FILE_NUMBER_MAX"
    by (rule advance_le)
  from loop_body_rotate [OF fp big] le next_in_line_mod [OF le] show ?thesis
    by (simp add: advance_mod advance_1299 LOG_FILE_NUMBER_MAX_def)
qed

theorem rotation_removes_slot_after_new_active_witness:
  "(11250 \<le> Log_Byte_Count last_slot_state + 1 \<or> Log_Time last_slot_state \<le> now_check quiet_tick)
   \<and> 2700000 \<le> Log_File_Byte_Count last_slot_state + 1
   \<and> Log_File_Number (fst (loop_body last_slot_state quiet_tick)) = 0
   \<and> snd (loop_body last_slot_state quiet_tick) =
        [Serial2_read 10, File_write (Some ''Dat1299.log'') 10 True,
         DigitalWrite DBUG_RED_LED_PIN HIGH,
         File_close (Some ''Dat1299.log'') True,
         SD_remove ''Dat0001.log'' True,
         SD_open ''Dat0000.log'' True,
         DigitalWrite DBUG_RED_LED_PIN LOW]"
  using rotation_removes_slot_after_new_active [of last_slot_state quiet_tick]
  by (simp add: last_slot_state_def quiet_tick_def all_ok_def 
      LOG_FILE_def Str_Zeros_def String_dec_small digit_char_def
      LOG_FILE_PREFIX_def LOG_FILE_SUFFIX_def)

subsection \<open>C3\<close>

text \<open>
  C3. Each pass of the loop body first takes one byte and passes it to the file, then
  tests the trigger on the incremented counter. The calls that follow the append contain
  exactly one commit (\<^verbatim>\<open>flush\<close>, or \<^verbatim>\<open>close\<close> on rotation) if the byte count since
  the last flush has reached 11250 or the clock has reached \<open>Log_Time\<close>, also when both
  hold at once, and none otherwise. When the trigger fires, the same step leaves
  \<open>Log_Byte_Count\<close> at 0 and \<open>Log_Time\<close> at the clock value read for re-arming plus 3000
  (in 32-bit arithmetic); when it does not fire, nothing follows the append and the
  deadline is unchanged.
\<close>

theorem flush_trigger_fires_once:
  "take 2 (snd (loop_body st t)) =
     [Serial2_read (rx t), File_write (dataFile st) (rx t) (write_ok (report t))]
   \<and> commits (drop 2 (snd (loop_body st t))) =
       (if 11250 \<le> Log_Byte_Count st + 1 \<or> Log_Time st \<le> now_check t then 1 else 0)
   \<and> (11250 \<le> Log_Byte_Count st + 1 \<or> Log_Time st \<le> now_check t \<longrightarrow>
        Log_Byte_Count (fst (loop_body st t)) = 0 \<and>
        Log_Time (fst (loop_body st t)) = now_rearm t + 3000)
   \<and> (\<not> (11250 \<le> Log_Byte_Count st + 1 \<or> Log_Time st \<le> now_check t) \<longrightarrow>
        drop 2 (snd (loop_body st t)) = [] \<and>
        Log_Byte_Count (fst (loop_body st t)) = Log_Byte_Count st + 1 \<and>
        Log_Time (fst (loop_body st t)) = Log_Time st)"
proof (cases "11250 \<le> Log_Byte_Count st + 1 \<or> Log_Time st \<le> now_check t")
  case False
  then have "\<not> trigger (st\<lparr>Log_File_Byte_Count := Log_File_Byte_Count st + 1,
                    Log_Byte_Count := Log_Byte_Count st + 1\<rparr>) t"
    by (simp add: trigger_def LOG_BYTE_TRIGGER_def)
  from loop_body_quiet [OF this] False show ?thesis
    by (simp add: commits_def)
next
  case True
  then have fp: "LOG_BYTE_TRIGGER \<le> Log_Byte_Count st + 1 \<or> Log_Time st \<le> now_check t"
    by (simp add: LOG_BYTE_TRIGGER_def)
  show ?thesis
  proof (cases "Log_File_Byte_Count st + 1 < LOG_FILE_SIZE_TRIGGER")
    case small: True
    from loop_body_flush [OF fp small] True show ?thesis
      by (simp add: commits_def LOG_TIME_TRIGGER_def)
  next
    case big: False
    from loop_body_rotate [OF fp big] True show ?thesis
      by (simp add: commits_def LOG_TIME_TRIGGER_def)
  qed
qed

theorem flush_trigger_fires_once_witness:
  "(11250 \<le> Log_Byte_Count race_state + 1 \<and> Log_Time race_state \<le> now_check race_tick)
   \<and> commits (drop 2 (snd (loop_body race_state race_tick))) = 1
   \<and> Log_Byte_Count (fst (loop_body race_state race_tick)) = 0
   \<and> Log_Time (fst (loop_body race_state race_tick)) = 8001"
  using flush_trigger_fires_once [of race_state race_tick]
  by (simp add: race_state_def race_tick_def)

subsection \<open>C4\<close>

text \<open>
  C4. At a flush point (the trigger holds after the increment) the file counter decides
  alone: below 2,700,000 the file is flushed and nothing else happens to the file, its
  number or its handle; at or above 2,700,000 the file is closed, the file counter is
  reset to 0, the number advances (to 0 after 1299), the next file in line is removed
  and the new file is opened, all in this step. Hence the rotation takes place at the
  first flush point that finds the counter at or above the threshold.
\<close>

theorem rotate_at_first_flush_point_over_size:
  assumes "11250 \<le> Log_Byte_Count st + 1 \<or> Log_Time st \<le> now_check t"
  shows "(Log_File_Byte_Count st + 1 < 2700000 \<longrightarrow>
            snd (loop_body st t) =
              [Serial2_read (rx t), File_write (dataFile st) (rx t) (write_ok (report t)),
               DigitalWrite DBUG_RED_LED_PIN HIGH,
               File_flush (dataFile st) (flush_ok (report t)),
               DigitalWrite DBUG_RED_LED_PIN LOW]
            \<and> Log_File_Number (fst (loop_body st t)) = Log_File_Number st
            \<and> dataFile (fst (loop_body st t)) = dataFile st
            \<and> Log_File_Byte_Count (fst (loop_body st t)) = Log_File_Byte_Count st + 1)
       \<and> (2700000 \<le> Log_File_Byte_Count st + 1 \<longrightarrow>
            snd (loop_body st t) =
              [Serial2_read (rx t), File_write (dataFile st) (rx t) (write_ok (report t)),
               DigitalWrite DBUG_RED_LED_PIN HIGH,
               File_close (dataFile st) (close_ok (report t)),
               SD_remove (next_in_line (Log_File_Number (fst (loop_body st t))))
                 (remove_ok (report t)),
               SD_open (LOG_FILE (Log_File_Number (fst (loop_body st t)))) (open_ok (report t)),
               DigitalWrite DBUG_RED_LED_PIN LOW]
            \<and> Log_File_Byte_Count (fst (loop_body st t)) = 0
            \<and> Log_File_Number (fst (loop_body st t)) =
                (if Log_File_Number st + 1 > 1299 then 0 else Log_File_Number st + 1)
            \<and> dataFile (fst (loop_body st t)) =
                (if open_ok (report t)
                 then Some (LOG_FILE (Log_File_Number (fst (loop_body st t)))) else None))"
proof -
  from assms
  have fp: "LOG_BYTE_TRIGGER \<le> Log_Byte_Count st + 1 \<or> Log_Time st \<le> now_check t"
    by (simp add: LOG_BYTE_TRIGGER_def)
  show ?thesis
  proof (cases "Log_File_Byte_Count st + 1 < LOG_FILE_SIZE_TRIGGER")
    case True
    from loop_body_flush [OF fp True] True show ?thesis
      by (simp add: LOG_FILE_SIZE_TRIGGER_def)
  next
    case False
    from loop_body_rotate [OF fp False] False show ?thesis
      by (simp add: LOG_FILE_SIZE_TRIGGER_def advance_def LOG_FILE_NUMBER_MAX_def
          SD_open_handle_def not_less)
  qed
qed

theorem rotate_at_first_flush_point_over_size_witness:
  "(11250 \<le> Log_Byte_Count full_file_state + 1 \<or> Log_Time full_file_state \<le> now_check quiet_tick)
   \<and> 2700000 \<le> Log_File_Byte_Count full_file_state + 1
   \<and> snd (loop_body full_file_state quiet_tick) =
        [Serial2_read 10, File_write (Some ''Dat0003.log'') 10 True,
         DigitalWrite DBUG_RED_LED_PIN HIGH,
         File_close (Some ''Dat0003.log'') True,
         SD_remove ''Dat0005.log'' True,
         SD_open ''Dat0004.log'' True,
         DigitalWrite DBUG_RED_LED_PIN LOW]
   \<and> Log_File_Byte_Count (fst (loop_body full_file_state quiet_tick)) = 0
   \<and> Log_File_Number (fst (loop_body full_file_state quiet_tick)) = 4"
  using rotate_at_first_flush_point_over_size [of full_file_state quiet_tick]
  by (simp add: full_file_state_def quiet_tick_def all_ok_def next_in_line_def
      LOG_FILE_NUMBER_MAX_def LOG_FILE_def Str_Zeros_def String_dec_small digit_char_def
      LOG_FILE_PREFIX_def LOG_FILE_SUFFIX_def)

subsection \<open>C5\<close>

text \<open>
  C5. With all files \<open>Dat0000.log\<close> to \<open>Dat1299.log\<close> on the card, \<^verbatim>\<open>setup\<close> leaves
  \<open>Log_File_Number\<close> at 1299: the scan stops at 1299 without testing that slot, the test
  \<open>Log_File_Number > LOG_FILE_NUMBER_MAX\<close> that guards the fallback is false, file 0 is
  removed as the next in line, and the existing file 1299 is opened for appending.
  File 1 is not removed and slot 0 is not the active slot.
\<close>

theorem full_ring_startup_keeps_slot_1299:
  "setup_sketch full_card =
     Some (\<lparr>Log_Time = 0, Log_Byte_Count = 0, Log_File_Byte_Count = 0,
             Log_File_Number = 1299, dataFile = Some ''Dat1299.log''\<rparr>,
           setup_pins @
           [SD_begin True, SD_remove ''Dat0000.log'' True, SD_open ''Dat1299.log'' True,
            Serial2_begin 230400, PinPeripheral 10, PinPeripheral 11])"
proof -
  have "setup_sketch full_card =
    Some (\<lparr>Log_Time = 0, Log_Byte_Count = 0, Log_File_Byte_Count = 0,
            Log_File_Number = of_nat 1299,
            dataFile = SD_open_handle (LOG_FILE (of_nat 1299)) (open_ok (boot_report full_card))\<rparr>,
          setup_pins @
          [SD_begin True,
           SD_remove (next_in_line (of_nat 1299)) (remove_ok (boot_report full_card)),
           SD_open (LOG_FILE (of_nat 1299)) (open_ok (boot_report full_card)),
           Serial2_begin 230400, PinPeripheral 10, PinPeripheral 11])"
  proof (rule setup_sketch_started)
    show "begin_ok full_card" by (simp add: full_card_def)
    show "(1299::nat) \<le> 1299" by simp
    show "\<forall>j<1299. present full_card (LOG_FILE (of_nat j))"
      by (simp add: full_card_present)
    show "(1299::nat) = 1299 \<or> \<not> present full_card (LOG_FILE (of_nat 1299))" by simp
  qed
  moreover have "boot_report full_card = all_ok" by (simp add: full_card_def)
  ultimately show ?thesis
    by (simp add: next_in_line_def LOG_FILE_NUMBER_MAX_def SD_open_handle_def all_ok_def
        LOG_FILE_eval)
qed

subsection \<open>C6\<close>

text \<open>
  C6. If \<^verbatim>\<open>SD.begin\<close> succeeds and \<open>k\<close> is the smallest index from 0 to 1299 whose file
  does not exist, \<^verbatim>\<open>setup\<close> returns with \<open>Log_File_Number = k\<close>; the only storage calls
  it makes after \<^verbatim>\<open>SD.begin\<close> are the removal of the file of index \<open>(k + 1) mod 1300\<close>
  and then the opening of the file of index \<open>k\<close>, and it appends nothing.
\<close>

theorem startup_takes_first_free_slot:
  assumes "begin_ok c"
    and "k \<le> 1299"
    and "\<not> present c (LOG_FILE (of_nat k))"
    and "\<forall>j<k. present c (LOG_FILE (of_nat j))"
  shows "setup_sketch c =
    Some (\<lparr>Log_Time = 0, Log_Byte_Count = 0, Log_File_Byte_Count = 0,
            Log_File_Number = of_nat k,
            dataFile = (if open_ok (boot_report c) then Some (LOG_FILE (of_nat k)) else None)\<rparr>,
          setup_pins @
          [SD_begin True,
           SD_remove (LOG_FILE (of_nat ((k + 1) mod 1300))) (remove_ok (boot_report c)),
           SD_open (LOG_FILE (of_nat k)) (open_ok (boot_report c)),
           Serial2_begin 230400, PinPeripheral 10, PinPeripheral 11])"
proof -
  have le: "(of_nat k :: u32) \<le> LOG_FILE_NUMBER_MAX"
    using assms(2) by (simp add: LOG_FILE_NUMBER_MAX_def word_le_nat_alt unat_of_nat)
  have "unat (of_nat k :: u32) = k"
    using assms(2) by (rule unat_index)
  with next_in_line_mod [OF le]
  have "next_in_line (of_nat k) = LOG_FILE (of_nat ((k + 1) mod 1300))" by simp
  with setup_sketch_started [of c k] assms show ?thesis
    by (simp add: SD_open_handle_def)
qed

theorem startup_takes_first_free_slot_witness:
  "begin_ok three_file_card
   \<and> \<not> present three_file_card ''Dat0003.log''
   \<and> present three_file_card (LOG_FILE 0)
   \<and> present three_file_card (LOG_FILE 1)
   \<and> present three_file_card (LOG_FILE 2)
   \<and> setup_sketch three_file_card =
       Some (\<lparr>Log_Time = 0, Log_Byte_Count = 0, Log_File_Byte_Count = 0,
               Log_File_Number = 3, dataFile = Some ''Dat0003.log''\<rparr>,
             setup_pins @
             [SD_begin True, SD_remove ''Dat0004.log'' True, SD_open ''Dat0003.log'' True,
              Serial2_begin 230400, PinPeripheral 10, PinPeripheral 11])"
  using startup_takes_first_free_slot [of three_file_card 3]
  by (simp add: three_file_card_def all_ok_def all_less_3 LOG_FILE_eval)

subsection \<open>C7\<close>

text \<open>
  C7. The name of a log file depends on its index alone: for every index from 0 to 1299,
  \<open>LOG_FILE\<close> yields the prefix \<open>Dat\<close>, the decimal digits of the index left-padded with
  the character 0 to exactly four characters, and the suffix \<open>.log\<close>. Index 7 gives
  \<open>Dat0007.log\<close>, index 142 gives \<open>Dat0142.log\<close>, index 1299 gives \<open>Dat1299.log\<close>.
\<close>

theorem LOG_FILE_four_digits:
  assumes "i \<le> 1299"
  shows "LOG_FILE (of_nat i) = format_name i \<and> length (zero_padded i) = 4
    \<and> LOG_FILE 7 = ''Dat0007.log'' \<and> LOG_FILE 142 = ''Dat0142.log''
    \<and> LOG_FILE 1299 = ''Dat1299.log''"
  using assms
  by (simp add: LOG_FILE_format length_zero_padded LOG_FILE_7 LOG_FILE_142 LOG_FILE_1299)

theorem LOG_FILE_four_digits_witness:
  "(42::nat) \<le> 1299 \<and> LOG_FILE 42 = ''Dat0042.log'' \<and> zero_padded 42 = ''0042''"
  using LOG_FILE_four_digits [of 42]
  by (simp add: format_name_def zero_padded_def String_dec_small String_dec_large digit_char_def
      numeral_2_eq_2)

subsection \<open>C8\<close>

text \<open>
  C8, as stated, fails. In the state \<open>last_slot_state\<close> a pass in which the write, the
  close, the remove and the open all report failure leaves the counters and the calls of
  the pass with all reports good; the next pass writes to the invalid handle and counts
  the byte.
\<close>

theorem storage_failure_not_surfaced:
  "report failing_tick = all_fail
   \<and> core (loop_body last_slot_state failing_tick) =
       core (loop_body last_slot_state (failing_tick\<lparr>report := all_ok\<rparr>))
   \<and> snd (loop_body last_slot_state failing_tick) =
       [Serial2_read 10, File_write (Some ''Dat1299.log'') 10 False,
        DigitalWrite DBUG_RED_LED_PIN HIGH,
        File_close (Some ''Dat1299.log'') False,
        SD_remove ''Dat0001.log'' False,
        SD_open ''Dat0000.log'' False,
        DigitalWrite DBUG_RED_LED_PIN LOW]
   \<and> loop_body (fst (loop_body last_slot_state failing_tick)) failing_tick =
       (\<lparr>Log_Time = 10000, Log_Byte_Count = 1, Log_File_Byte_Count = 1,
         Log_File_Number = 0, dataFile = None\<rparr>,
        [Serial2_read 10, File_write None 10 False])"
  by (simp add: core_def loop_body_def flush_point_def rotate_def trigger_def Let_def
      last_slot_state_def failing_tick_def all_fail_def all_ok_def advance_def
      next_in_line_def SD_open_handle_def LOG_BYTE_TRIGGER_def LOG_TIME_TRIGGER_def
      LOG_FILE_SIZE_TRIGGER_def LOG_FILE_NUMBER_MAX_def LOG_FILE_eval word_le_nat_alt)

text \<open>
  C8, as the code has it. A pass of the loop body leaves the same counters and makes the
  same calls whatever the storage library reports for them. It makes one write, and then
  nothing, or one flush, or one close, one remove and one open: no call is repeated.
\<close>

theorem storage_reports_ignored:
  "core (loop_body st (t\<lparr>report := r\<rparr>)) = core (loop_body st (t\<lparr>report := r'\<rparr>))
   \<and> (map call_of (filter is_storage (snd (loop_body st t))) =
         [File_write (dataFile st) (rx t) True]
      \<or> map call_of (filter is_storage (snd (loop_body st t))) =
         [File_write (dataFile st) (rx t) True, File_flush (dataFile st) True]
      \<or> map call_of (filter is_storage (snd (loop_body st t))) =
         [File_write (dataFile st) (rx t) True, File_close (dataFile st) True,
          SD_remove (next_in_line (Log_File_Number (fst (loop_body st t)))) True,
          SD_open (LOG_FILE (Log_File_Number (fst (loop_body st t)))) True])"
  using loop_body_core loop_body_storage_calls by blast

theorem storage_reports_ignored_witness:
  "core (loop_body last_slot_state failing_tick) = core (loop_body last_slot_state quiet_tick)"
  using storage_reports_ignored [where st = last_slot_state and t = quiet_tick
      and r = all_fail and r' = all_ok]
  by (simp add: quiet_tick_def failing_tick_def)

subsection \<open>C9\<close>

text \<open>
  C9. If \<^verbatim>\<open>SD.begin\<close> fails, then however many rounds the fail loop is given and
  whatever arrives on the serial port, the sketch is still in the fail loop: \<^verbatim>\<open>setup\<close>
  has not returned and \<^verbatim>\<open>loop\<close> has not been called. The calls it has made are the
  pin set-up, the failed \<^verbatim>\<open>SD.begin\<close> and, for every round, the signal on the two LEDs:
  both on for 100 ms, off for 300 ms, on for 100 ms, off for 300 ms, on for 100 ms, off
  for 1100 ms. None of these calls is a call on the serial port (which is never
  started), a removal or opening of a file, or a call on a file: no byte is read and
  none is written.
\<close>

theorem failed_begin_never_ingests:
  assumes "\<not> begin_ok c"
  shows "sketch_run n c tss =
           Looping (setup_pins @ [SD_begin False] @
             concat (replicate n
               [DigitalWrite DBUG_GRN_LED_PIN HIGH, DigitalWrite DBUG_RED_LED_PIN HIGH, Delay 100,
                DigitalWrite DBUG_GRN_LED_PIN LOW, DigitalWrite DBUG_RED_LED_PIN LOW, Delay 300,
                DigitalWrite DBUG_GRN_LED_PIN HIGH, DigitalWrite DBUG_RED_LED_PIN HIGH, Delay 100,
                DigitalWrite DBUG_GRN_LED_PIN LOW, DigitalWrite DBUG_RED_LED_PIN LOW, Delay 300,
                DigitalWrite DBUG_GRN_LED_PIN HIGH, DigitalWrite DBUG_RED_LED_PIN HIGH, Delay 100,
                DigitalWrite DBUG_GRN_LED_PIN LOW, DigitalWrite DBUG_RED_LED_PIN LOW, Delay 1100]))
       \<and> filter is_data_call (calls (sketch_run n c tss)) = []
       \<and> setup_sketch c = None"
proof -
  have run: "sketch_run n c tss =
      Looping (setup_pins @ [SD_begin False] @ concat (replicate n fail_signal))"
    using assms by (simp add: sketch_run_def setup_run_fail)
  have "filter is_data_call (setup_pins @ [SD_begin False] @ concat (replicate n fail_signal)) = []"
    by (simp add: no_data_call_setup_pins no_data_call_rounds)
  with run have quiet: "filter is_data_call (calls (sketch_run n c tss)) = []"
    by simp
  from assms have "setup_sketch c = None"
    by (rule setup_sketch_fail)
  with run quiet show ?thesis
    by (simp add: fail_signal_def)
qed

theorem failed_begin_never_ingests_witness:
  "\<not> begin_ok dead_card
   \<and> sketch_run 2 dead_card [[race_tick, quiet_tick]] =
       Looping (setup_pins @ [SD_begin False] @
         [DigitalWrite DBUG_GRN_LED_PIN HIGH, DigitalWrite DBUG_RED_LED_PIN HIGH, Delay 100,
                DigitalWrite DBUG_GRN_LED_PIN LOW, DigitalWrite DBUG_RED_LED_PIN LOW, Delay 300,
                DigitalWrite DBUG_GRN_LED_PIN HIGH, DigitalWrite DBUG_RED_LED_PIN HIGH, Delay 100,
                DigitalWrite DBUG_GRN_LED_PIN LOW, DigitalWrite DBUG_RED_LED_PIN LOW, Delay 300,
                DigitalWrite DBUG_GRN_LED_PIN HIGH, DigitalWrite DBUG_RED_LED_PIN HIGH, Delay 100,
                DigitalWrite DBUG_GRN_LED_PIN LOW, DigitalWrite DBUG_RED_LED_PIN LOW, Delay 1100] @
         [DigitalWrite DBUG_GRN_LED_PIN HIGH, DigitalWrite DBUG_RED_LED_PIN HIGH, Delay 100,
                DigitalWrite DBUG_GRN_LED_PIN LOW, DigitalWrite DBUG_RED_LED_PIN LOW, Delay 300,
                DigitalWrite DBUG_GRN_LED_PIN HIGH, DigitalWrite DBUG_RED_LED_PIN HIGH, Delay 100,
                DigitalWrite DBUG_GRN_LED_PIN LOW, DigitalWrite DBUG_RED_LED_PIN LOW, Delay 300,
                DigitalWrite DBUG_GRN_LED_PIN HIGH, DigitalWrite DBUG_RED_LED_PIN HIGH, Delay 100,
                DigitalWrite DBUG_GRN_LED_PIN LOW, DigitalWrite DBUG_RED_LED_PIN LOW, Delay 1100])
   \<and> filter is_data_call (calls (sketch_run 2 dead_card [[race_tick, quiet_tick]])) = []"
  using failed_begin_never_ingests [of dead_card 2 "[[race_tick, quiet_tick]]"]
  by (simp add: dead_card_def numeral_2_eq_2 no_data_call_setup_pins)

subsection \<open>C10\<close>

text \<open>
  C10. From power-up on, after any number of calls of \<^verbatim>\<open>loop\<close> with any bytes and
  any clock readings, the two counters satisfy \<open>counters_inv\<close>, so that
  \<open>Log_File_Byte_Count\<close> is below 2,711,250 even right after the increment of the next
  pass, and every file chunk (the bytes appended between two \<^verbatim>\<open>SD.open\<close> calls) is
  shorter than 2,711,250 bytes. Each pass of the loop body preserves \<open>counters_inv\<close>.
\<close>

theorem file_byte_count_below_size_plus_byte_trigger:
  assumes "setup_sketch c = Some (st0, ev0)"
  shows "Log_File_Byte_Count (fst (loops st0 tss)) < 2711250
       \<and> unat (Log_File_Byte_Count (fst (loops st0 tss))) + 1 < 2711250
       \<and> counters_inv (fst (loops st0 tss))
       \<and> counters_inv (fst (loop_body (fst (loops st0 tss)) t))
       \<and> list_all (\<lambda>x. length (snd x) < 2711250)
            (sessions (LOG_FILE (Log_File_Number st0)) [] (snd (loops st0 tss)))
       \<and> unat LOG_FILE_SIZE_TRIGGER + unat LOG_BYTE_TRIGGER = 2711250"
proof -
  from assms have z: "Log_Byte_Count st0 = 0" "Log_File_Byte_Count st0 = 0"
    using setup_sketch_counters by blast+
  then have i0: "counters_inv st0" by (simp add: counters_inv_def)
  then have i: "counters_inv (fst (loops st0 tss))" by (rule loops_inv)
  then have b: "unat (Log_File_Byte_Count (fst (loops st0 tss))) + 1 < 2711250"
    by (rule counters_inv_bound)
  then have w: "Log_File_Byte_Count (fst (loops st0 tss)) < 2711250"
    by (simp add: word_less_nat_alt)
  from i have n: "counters_inv (fst (loop_body (fst (loops st0 tss)) t))"
    by (rule loop_body_inv)
  from i0 z have "chunks_ok (LOG_FILE (Log_File_Number st0)) [] (loops st0 tss)"
    by (intro loops_chunks) simp_all
  then have "list_all (\<lambda>x. length (snd x) < 2711250)
      (sessions (LOG_FILE (Log_File_Number st0)) [] (snd (loops st0 tss)))"
    by (simp add: chunks_ok_def)
  with i b w n show ?thesis
    by (simp add: LOG_FILE_SIZE_TRIGGER_def LOG_BYTE_TRIGGER_def)
qed

theorem file_byte_count_below_size_plus_byte_trigger_witness:
  "setup_sketch three_file_card =
     Some (three_file_boot,
           setup_pins @
           [SD_begin True, SD_remove ''Dat0004.log'' True, SD_open ''Dat0003.log'' True,
            Serial2_begin 230400, PinPeripheral 10, PinPeripheral 11])
   \<and> Log_File_Byte_Count (fst (loops three_file_boot [[quiet_tick], [race_tick]])) < 2711250"
  using file_byte_count_below_size_plus_byte_trigger [OF setup_three_file_card,
      of "[[quiet_tick], [race_tick]]" quiet_tick]
    setup_three_file_card
  by simp

end
